theory Spec2Isabelle
  imports Complex_Main "HOL-Library.Sublist" "HOL-Library.Multiset"
begin

section \<open>Python strings\<close>

text \<open>
  A Python \<open>str\<close> is a sequence of Unicode code points, and \<open>len\<close> counts code points.
  Strings are therefore lists of code points; \<open>str ''abc''\<close> is the literal \<open>"abc"\<close>.
\<close>

type_synonym pystr = "nat list"

abbreviation str :: "string \<Rightarrow> pystr" where
  "str s \<equiv> map of_char s"

text \<open>
  \<open>str.isspace\<close>, which decides where \<open>str.split()\<close> and \<open>str.strip()\<close> cut and what
  \<open>\s\<close> matches in a regular expression over \<open>str\<close>: the code points U+0009..U+000D,
  U+001C..U+0020, U+0085, U+00A0, U+1680, U+2000..U+200A, U+2028, U+2029, U+202F, U+205F
  and U+3000.
\<close>

definition is_space :: "nat \<Rightarrow> bool" where
  "is_space c \<longleftrightarrow>
     (9 \<le> c \<and> c \<le> 13) \<or> (28 \<le> c \<and> c \<le> 32) \<or> c = 133 \<or> c = 160 \<or> c = 5760 \<or>
     (8192 \<le> c \<and> c \<le> 8202) \<or> c = 8232 \<or> c = 8233 \<or> c = 8239 \<or> c = 8287 \<or> c = 12288"

text \<open>
  \<open>str.lower()\<close> on the code points below 256 (ASCII and Latin-1): A..Z, and the
  accented capitals U+00C0..U+00DE without the multiplication sign U+00D7, move up by 32.
  Code points from 256 on are left as they are: the lower-casing tables of the rest of
  Unicode are not part of this development, and no result below depends on them.
\<close>

definition lower_char :: "nat \<Rightarrow> nat" where
  "lower_char c =
     (if (65 \<le> c \<and> c \<le> 90) \<or> (192 \<le> c \<and> c \<le> 214) \<or> (216 \<le> c \<and> c \<le> 222)
      then c + 32 else c)"

definition str_lower :: "pystr \<Rightarrow> pystr" where
  "str_lower s = map lower_char s"

text \<open>
  \<open>s.split()\<close> with no separator: the maximal runs of non-whitespace, in order; never an
  empty token. The first argument is the token being read.
\<close>

fun split_from :: "pystr \<Rightarrow> pystr \<Rightarrow> pystr list" where
  "split_from w [] = (if w = [] then [] else [w])"
| "split_from w (c # cs) =
     (if is_space c then (if w = [] then split_from [] cs else w # split_from [] cs)
      else split_from (w @ [c]) cs)"

definition str_split :: "pystr \<Rightarrow> pystr list" where
  "str_split s = split_from [] s"

text \<open>\<open>s.strip()\<close>: whitespace removed at both ends.\<close>

definition str_strip :: "pystr \<Rightarrow> pystr" where
  "str_strip s = rev (dropWhile is_space (rev (dropWhile is_space s)))"

text \<open>\<open>w in s\<close> on strings: \<open>w\<close> occurs in \<open>s\<close> as a contiguous substring.\<close>

fun str_contains :: "pystr \<Rightarrow> pystr \<Rightarrow> bool" where
  "str_contains w [] = (w = [])"
| "str_contains w (c # cs) = (prefix w (c # cs) \<or> str_contains w cs)"

text \<open>\<open>s.split(sep)\<close> for a one-character separator: empty pieces are kept.\<close>

fun str_split_on :: "nat \<Rightarrow> pystr \<Rightarrow> pystr list" where
  "str_split_on sep [] = [[]]"
| "str_split_on sep (c # cs) =
     (case str_split_on sep cs of
        [] \<Rightarrow> [[]]
      | w # ws \<Rightarrow> if c = sep then [] # w # ws else (c # w) # ws)"

text \<open>The decimal digits of a number, as an f-string prints an \<open>int\<close> that is not negative.\<close>

fun show_nat :: "nat \<Rightarrow> pystr" where
  "show_nat n = (if n < 10 then [48 + n] else show_nat (n div 10) @ [48 + n mod 10])"

declare show_nat.simps [simp del]

section \<open>Checklists\<close>

text \<open>
  A checklist item is a dict with the keys \<open>"detail"\<close>, \<open>"identified"\<close> and \<open>"id"\<close>
  (here \<open>item_id\<close>). The program holds a checklist as a Python list of such dicts, and a list holds
  references: \<open>checklist.copy()\<close> makes a new list of the same dict objects. The dicts
  live in a heap, and a checklist is a list of references into it.
\<close>

record item =
  detail :: pystr
  identified :: bool
  item_id :: nat

type_synonym ref = nat
type_synonym heap = "ref \<Rightarrow> item"

text \<open>The items a checklist holds, read through the heap.\<close>

definition view :: "heap \<Rightarrow> ref list \<Rightarrow> item list" where
  "view h checklist = map h checklist"

text \<open>
  The keys of the session dict that the attempt budget reads. \<open>None\<close> is a missing key
  (the code reads them with \<open>dict.get\<close>).
\<close>

record session =
  attempt_count :: "int option"
  attempt_limit :: "int option"

section \<open>fallback\_mode.py: FallbackMode.process\_chat\_message\<close>

text \<open>
  The inner loop over the words of one detail: the first word longer than 3 characters
  that occurs in the lower-cased message ends the loop (\<open>break\<close>) with the item marked.
\<close>

fun word_loop :: "pystr list \<Rightarrow> pystr \<Rightarrow> bool" where
  "word_loop [] message_lower = False"
| "word_loop (word # detail_words) message_lower =
     (if length word > 3 \<and> str_contains word message_lower then True
      else word_loop detail_words message_lower)"

text \<open>
  The outer loop over \<open>updated_checklist\<close>. An identified item is skipped
  (\<open>continue\<close>); \<open>updated_checklist[i]["identified"] = True\<close> writes to the dict object
  itself.
\<close>

fun mark_loop :: "pystr \<Rightarrow> ref list \<Rightarrow> heap \<Rightarrow> heap" where
  "mark_loop message [] h = h"
| "mark_loop message (r # rs) h =
     (if identified (h r) then mark_loop message rs h
      else
        let detail_words = str_split (str_lower (detail (h r)));
            message_lower = str_lower message
        in if word_loop detail_words message_lower
           then mark_loop message rs (h(r := (h r)\<lparr>identified := True\<rparr>))
           else mark_loop message rs h)"

text \<open>
  \<open>newly_identified\<close>: the positions where the item of \<open>updated_checklist\<close> is identified
  and the item of \<open>checklist\<close> at the same position is not, both read after the loop.
\<close>

definition newly_identified :: "heap \<Rightarrow> ref list \<Rightarrow> ref list \<Rightarrow> nat" where
  "newly_identified h updated_checklist checklist =
     length (filter (\<lambda>(u, c). identified (h u) \<and> \<not> identified (h c))
               (zip updated_checklist checklist))"

text \<open>\<open>random.choice(seq)\<close> on a non-empty sequence, from a raw draw \<open>rnd\<close>.\<close>

definition choice :: "nat \<Rightarrow> 'a list \<Rightarrow> 'a" where
  "choice rnd seq = seq ! (rnd mod length seq)"

definition last_attempt_warning :: pystr where
  "last_attempt_warning =
     [10, 10] @ str ''This is your last attempt. After this, we'll move to a new image.''"

text \<open>The response before the attempt budget is looked at.\<close>

definition compose_response :: "nat \<Rightarrow> heap \<Rightarrow> ref list \<Rightarrow> ref list \<Rightarrow> pystr" where
  "compose_response rnd h updated_checklist checklist =
     (let n = newly_identified h updated_checklist checklist in
      if n > 0 then
        str ''Great job! You identified '' @ show_nat n @ str '' new detail'' @
        (if n > 1 then str ''s'' else []) @ str ''.'' @
        (if n > 1 then str '' Your observation skills are excellent!'' else [])
      else
        let unidentified = map (\<lambda>r. detail (h r))
                             (filter (\<lambda>r. \<not> identified (h r)) updated_checklist)
        in if unidentified \<noteq> [] then
             str ''Good try! Can you tell me more about the '' @
             str_lower (choice rnd unidentified) @ str ''?''
           else str ''Wonderful! You've identified all the details in this image.'')"

text \<open>
  Whether the last-attempt warning is added: the session is there, its
  \<open>attempt_limit\<close> is there and not 0 (Python truthiness), and
  \<open>attempt_count + 1 >= attempt_limit\<close> with some item not identified.
\<close>

definition warns :: "session option \<Rightarrow> heap \<Rightarrow> ref list \<Rightarrow> bool" where
  "warns active_session h updated_checklist =
     (case active_session of
        None \<Rightarrow> False
      | Some s \<Rightarrow>
          (case attempt_limit s of
             None \<Rightarrow> False
           | Some lmt \<Rightarrow>
               if lmt = 0 then False
               else
                 let cnt = (case attempt_count s of None \<Rightarrow> 0 | Some c \<Rightarrow> c)
                 in cnt + 1 \<ge> lmt \<and> \<not> list_all (\<lambda>r. identified (h r)) updated_checklist))"

text \<open>
  The whole call. \<open>rnd\<close> is the draw \<open>random.choice\<close> uses for the hint and \<open>h\<close> the heap
  at the call; the result is the response, the returned list and the heap after the call.
  \<open>checklist.copy()\<close> is a new list of the same references, so \<open>updated_checklist\<close>
  and \<open>checklist\<close> are equal as lists of references and share every dict.
\<close>

definition process_chat_message ::
  "nat \<Rightarrow> heap \<Rightarrow> pystr \<Rightarrow> ref list \<Rightarrow> session option \<Rightarrow> pystr \<times> ref list \<times> heap" where
  "process_chat_message rnd h message checklist active_session =
     (let updated_checklist = checklist;
          h' = mark_loop message updated_checklist h;
          response = compose_response rnd h' updated_checklist checklist;
          response = (if warns active_session h' updated_checklist
                      then response @ last_attempt_warning else response)
      in (response, updated_checklist, h'))"

text \<open>
  A sequence of calls, each fed the list and the heap the call before it returned. One
  input is the draw, the message and the session of a call.
\<close>

fun run :: "(nat \<times> pystr \<times> session option) list \<Rightarrow> heap \<Rightarrow> ref list \<Rightarrow> ref list \<times> heap" where
  "run [] h checklist = (checklist, h)"
| "run ((rnd, message, active_session) # calls) h checklist =
     (case process_chat_message rnd h message checklist active_session of
        (response, updated_checklist, h') \<Rightarrow> run calls h' updated_checklist)"

text \<open>The checklist a sequence of calls ends with, as items.\<close>

definition returned :: "ref list \<times> heap \<Rightarrow> item list" where
  "returned res = view (snd res) (fst res)"

section \<open>fallback\_mode.py: FallbackMode.create\_html\_checklist\<close>

definition html_head :: pystr where
  \<open>html_head =
     str ''<div id="checklist-container" style="background-color: #000000; color: #ffffff; padding: 15px; border-radius: 8px;">'' @
     str ''<style>.checklist-item {display: flex; align-items: center; margin-bottom: 10px; padding: 8px; border-radius: 5px; transition: background-color 0.3s;} '' @
     str ''.identified {background-color: #1e4620; text-decoration: line-through; color: #7fff7f;} '' @
     str ''.not-identified {background-color: #222222; color: #ffffff;} '' @
     str ''.checkmark {margin-right: 10px; font-size: 1.2em;}</style>''\<close>

text \<open>The two symbols are U+2705 (white heavy check mark) and U+274C (cross mark).\<close>

definition html_item :: "item \<Rightarrow> pystr" where
  \<open>html_item it =
     (let css_class = (if identified it then str ''identified'' else str ''not-identified'');
          checkmark = (if identified it then [0x2705] else [0x274C])
      in str ''<div class="checklist-item '' @ css_class @ str ''">'' @
         str ''<span class="checkmark">'' @ checkmark @ str ''</span>'' @
         str ''<span>'' @ detail it @ str ''</span>'' @
         str ''</div>'')\<close>

definition create_html_checklist :: "item list \<Rightarrow> pystr" where
  "create_html_checklist checklist =
     html_head @ concat (map html_item checklist) @ str ''</div>''"

section \<open>app.py: extract\_checklist\_from\_html\<close>

text \<open>
  The regular expressions the pattern is made of: a literal text, a capturing group
  \<open>([^c]+)\<close> of one or more characters other than \<open>c\<close>, and \<open>\s*\<close>.
\<close>

datatype rx = Lit pystr | Group_not nat | Spaces

text \<open>
  All the ways a sequence of them matches at the start of a text, in the order a
  backtracking matcher tries them (the longest repetition first): the captured groups
  and the text left after the match. The head of the list is the match \<open>re\<close> reports.
\<close>

fun rx_matches :: "rx list \<Rightarrow> pystr \<Rightarrow> (pystr list \<times> pystr) list" where
  "rx_matches [] s = [([], s)]"
| "rx_matches (Lit l # p) s =
     (if prefix l s then rx_matches p (drop (length l) s) else [])"
| "rx_matches (Group_not c # p) s =
     concat (map (\<lambda>n. map (\<lambda>(groups, rest). (take n s # groups, rest)) (rx_matches p (drop n s)))
               (rev [1 ..< Suc (length (takeWhile (\<lambda>x. x \<noteq> c) s))]))"
| "rx_matches (Spaces # p) s =
     concat (map (\<lambda>n. rx_matches p (drop n s))
               (rev [0 ..< Suc (length (takeWhile is_space s))]))"

text \<open>
  \<open>re.findall\<close>: the matches from left to right, none overlapping; the search goes on
  where a match ended, and one character further where there is none. A pattern that
  matches the empty text also moves one character on; the pattern below never does.
\<close>

fun findall :: "rx list \<Rightarrow> pystr \<Rightarrow> pystr list list" where
  "findall p s =
     (case rx_matches p s of
        [] \<Rightarrow> (case s of [] \<Rightarrow> [] | c # cs \<Rightarrow> findall p cs)
      | (groups, rest) # others \<Rightarrow>
          if length rest < length s then groups # findall p rest
          else (case s of [] \<Rightarrow> [groups] | c # cs \<Rightarrow> groups # findall p cs))"

declare findall.simps [simp del]

definition pattern :: "rx list" where
  \<open>pattern =
     [Lit (str ''<div class="checklist-item ''), Group_not 34, Lit (str ''">''), Spaces,
      Lit (str ''<span class="checkmark">''), Group_not 60, Lit (str ''</span>''), Spaces,
      Lit (str ''<span>''), Group_not 60, Lit (str ''</span>''), Spaces,
      Lit (str ''</div>'')]\<close>

text \<open>
  The items are built from the matches in order, \<open>enumerate\<close> numbering them from \<open>i\<close>.
  Each is a new dict. A match of the pattern has three groups; the last case stands for
  an unpacking that fails and is never reached.
\<close>

fun items_of :: "nat \<Rightarrow> pystr list list \<Rightarrow> item list" where
  "items_of i [] = []"
| "items_of i ([css_class, checkmark, detl] # matches) =
     \<lparr>detail = detl, identified = str_contains (str ''identified'') css_class, item_id = i\<rparr>
       # items_of (Suc i) matches"
| "items_of i (other # matches) = items_of (Suc i) matches"

definition extract_checklist_from_html :: "pystr \<Rightarrow> item list" where
  "extract_checklist_from_html html_content =
     (if html_content = [] then [] else items_of 0 (findall pattern html_content))"

section \<open>fallback\_mode.py: FallbackMode.generate\_placeholder\_checklist\<close>

text \<open>
  The random generator is a sequence of raw draws, \<open>draws 0\<close> the first one taken.
  \<open>random.randint(a, b)\<close> takes one draw and returns a number from \<open>a\<close> to \<open>b\<close>.
\<close>

definition randint :: "nat \<Rightarrow> nat \<Rightarrow> nat \<Rightarrow> nat" where
  "randint a b draw = a + draw mod (b - a + 1)"

text \<open>
  \<open>random.sample(population, k)\<close> for a population of at most 21 elements, as CPython
  selects: \<open>k\<close> times, a position \<open>j\<close> below the number of elements left is drawn, the
  element there is taken, and the last element left is moved to position \<open>j\<close>. More than
  \<open>len(population)\<close> elements cannot be asked for (ValueError: the result is \<open>None\<close>).
\<close>

fun sample_pool :: "(nat \<Rightarrow> nat) \<Rightarrow> 'a list \<Rightarrow> nat \<Rightarrow> 'a list" where
  "sample_pool draws pool 0 = []"
| "sample_pool draws pool (Suc k) =
     (let j = draws 0 mod length pool
      in pool ! j # sample_pool (\<lambda>i. draws (Suc i)) (butlast (pool[j := last pool])) k)"

definition random_sample :: "(nat \<Rightarrow> nat) \<Rightarrow> 'a list \<Rightarrow> nat \<Rightarrow> 'a list option" where
  "random_sample draws population k =
     (if k \<le> length population then Some (sample_pool draws population k) else None)"

definition generic_details :: "pystr list" where
  "generic_details =
     [str ''Background color'', str ''Main subject'', str ''Foreground elements'',
      str ''Lighting effects'', str ''Shadows and highlights'', str ''Texture patterns'',
      str ''Color scheme'']"

text \<open>\<open>any(word in topic_words for word in keywords)\<close>.\<close>

definition any_in :: "pystr list \<Rightarrow> pystr list \<Rightarrow> bool" where
  "any_in keywords topic_words = list_ex (\<lambda>word. word \<in> set topic_words) keywords"

definition topic_details :: "pystr \<Rightarrow> pystr list" where
  "topic_details topic =
     (if topic \<noteq> [] \<and> topic \<noteq> str ''Unknown'' then
        let topic_words = str_split (str_lower topic) in
        if any_in [str ''animal'', str ''animals'', str ''pet'', str ''pets'', str ''wildlife'']
             topic_words
        then [str ''Animal type'', str ''Animal posture'', str ''Animal coloring'',
              str ''Habitat elements'', str ''Animal features'']
        else if any_in [str ''person'', str ''people'', str ''child'', str ''children'',
                        str ''family''] topic_words
        then [str ''Person's expression'', str ''Clothing items'', str ''Posture or pose'',
              str ''Hair style'', str ''Action being performed'']
        else if any_in [str ''nature'', str ''landscape'', str ''tree'', str ''forest'',
                        str ''mountain'', str ''ocean''] topic_words
        then [str ''Type of landscape'', str ''Plant life'', str ''Weather conditions'',
              str ''Time of day'', str ''Natural features'']
        else if any_in [str ''object'', str ''toy'', str ''item'', str ''tool''] topic_words
        then [str ''Object shape'', str ''Object purpose'', str ''Object material'',
              str ''Object size'', str ''Object color'']
        else []
      else [])"

text \<open>\<open>enumerate\<close> numbers the selected details from \<open>i\<close>; every item starts unidentified.\<close>

fun checklist_items :: "nat \<Rightarrow> pystr list \<Rightarrow> item list" where
  "checklist_items i [] = []"
| "checklist_items i (d # ds) =
     \<lparr>detail = d, identified = False, item_id = i\<rparr> # checklist_items (Suc i) ds"

definition generate_placeholder_checklist :: "(nat \<Rightarrow> nat) \<Rightarrow> pystr \<Rightarrow> item list option" where
  "generate_placeholder_checklist draws topic =
     (let all_details = topic_details topic @ generic_details;
          num_details = min (length all_details) (randint 5 8 (draws 0))
      in case random_sample (\<lambda>i. draws (Suc i)) all_details num_details of
           None \<Rightarrow> None
         | Some selected_details \<Rightarrow> Some (checklist_items 0 selected_details))"

section \<open>app.py: the page state\<close>

text \<open>
  The part of \<open>st.session_state\<close> that a submitted description reads and writes. A new
  dict is a reference the heap has not handed out yet.
\<close>

datatype speaker = Child | Teacher

record app_state =
  st_fallback_mode :: bool
  st_message :: pystr
  st_checklist :: "ref list"
  st_heap :: heap
  st_next_ref :: ref
  st_conversation_history :: "(speaker \<times> pystr) list"
  st_active_session :: session

definition alloc :: "item list \<Rightarrow> app_state \<Rightarrow> app_state" where
  "alloc items st =
     (let n = st_next_ref st in
      st\<lparr>st_checklist := [n ..< n + length items],
         st_heap := (\<lambda>r. if n \<le> r \<and> r < n + length items then items ! (r - n) else st_heap st r),
         st_next_ref := n + length items\<rparr>)"

text \<open>
  The attempt count after a processed description: one more, unless the limit is
  reached. \<open>attempt_count\<close> defaults to 0 and \<open>attempt_limit\<close> to 3.
\<close>

definition record_attempt :: "session \<Rightarrow> session" where
  "record_attempt s =
     (let cnt = (case attempt_count s of None \<Rightarrow> 0 | Some c \<Rightarrow> c);
          lmt = (case attempt_limit s of None \<Rightarrow> 3 | Some l \<Rightarrow> l)
      in if cnt < lmt then s\<lparr>attempt_count := Some (cnt + 1)\<rparr> else s)"

text \<open>The description is processed locally (fallback mode).\<close>

definition process_fallback :: "nat \<Rightarrow> app_state \<Rightarrow> app_state" where
  "process_fallback rnd st =
     (if str_strip (st_message st) = [] then st
      else
        let user_message = str_strip (st_message st) in
        case process_chat_message rnd (st_heap st) user_message (st_checklist st)
               (Some (st_active_session st)) of
          (response, updated_checklist, h') \<Rightarrow>
            st\<lparr>st_checklist := updated_checklist,
               st_heap := h',
               st_conversation_history :=
                 st_conversation_history st @ [(Child, user_message), (Teacher, response)],
               st_active_session := record_attempt (st_active_session st),
               st_message := []\<rparr>)"

text \<open>
  What the remote service does with a description: there is no connection
  (\<open>initialize_client()\<close> fails); the answer is not a tuple of at least two parts; the
  call raises, and the flag says whether the teacher then switches to fallback mode; or
  it answers with a text, and \<open>update_checklist()\<close> afterwards either leaves the checklist
  (\<open>None\<close>) or replaces it with new items.
\<close>

datatype gateway =
    No_client
  | Chat_invalid
  | Chat_raised bool
  | Chat_replied pystr "item list option"

definition app_process_chat_message :: "gateway \<Rightarrow> nat \<Rightarrow> app_state \<Rightarrow> app_state" where
  "app_process_chat_message g rnd st =
     (if st_fallback_mode st then process_fallback rnd st
      else
        case g of
          No_client \<Rightarrow> st
        | _ \<Rightarrow>
          if str_strip (st_message st) = [] then st
          else
            let user_message = str_strip (st_message st) in
            case g of
              No_client \<Rightarrow> st
            | Chat_invalid \<Rightarrow> st
            | Chat_raised switch \<Rightarrow>
                if switch
                then process_fallback rnd (st\<lparr>st_fallback_mode := True, st_message := user_message\<rparr>)
                else st
            | Chat_replied ai_response new_checklist \<Rightarrow>
                let st1 = st\<lparr>st_conversation_history :=
                               st_conversation_history st @
                                 [(Child, user_message), (Teacher, ai_response)],
                             st_active_session := record_attempt (st_active_session st),
                             st_message := []\<rparr>
                in case new_checklist of None \<Rightarrow> st1 | Some items \<Rightarrow> alloc items st1)"

text \<open>
  The teacher types a description and submits it; a run of the page is a sequence of
  such submissions, each with the service's behaviour and the draw of that moment.
\<close>

fun submit_all :: "(pystr \<times> gateway \<times> nat) list \<Rightarrow> app_state \<Rightarrow> app_state" where
  "submit_all [] st = st"
| "submit_all ((typed, g, rnd) # later) st =
     submit_all later (app_process_chat_message g rnd (st\<lparr>st_message := typed\<rparr>))"

text \<open>The number of descriptions of the child in a transcript.\<close>

definition descriptions :: "(speaker \<times> pystr) list \<Rightarrow> nat" where
  "descriptions history = length (filter (\<lambda>e. fst e = Child) history)"

section \<open>app.py: the attempt counter of the page\<close>

text \<open>
  The attempt counter shows \<open>min(attempt_count, attempt_limit)\<close> and the limit, and
  warns "Maximum attempts reached. The next interaction will move to a new image." under
  the two nested conditions. The result is the displayed count, the limit and whether the
  warning is shown; the progress bar drawn between them is left out.
\<close>

definition attempt_counter :: "session \<Rightarrow> item list \<Rightarrow> int \<times> int \<times> bool" where
  "attempt_counter s checklist =
     (let cnt = (case attempt_count s of None \<Rightarrow> 0 | Some c \<Rightarrow> c);
          lmt = (case attempt_limit s of None \<Rightarrow> 3 | Some l \<Rightarrow> l);
          display_count = min cnt lmt
      in (display_count, lmt,
          (if cnt \<ge> lmt then (if \<not> list_all identified checklist then True else False)
           else False)))"

definition max_attempts_warning :: "session \<Rightarrow> item list \<Rightarrow> bool" where
  "max_attempts_warning s checklist = snd (snd (attempt_counter s checklist))"

section \<open>app.py: update\_progress\<close>




section \<open>visolearn\_client.py: VisoLearnClient.process\_data\_url\<close>

text \<open>
  \<open>base64.b64decode\<close> and \<open>PIL.Image.open\<close> are library functions: \<open>b64decode\<close> gives the
  bytes of a payload and \<open>image_open\<close> the image of some bytes, each \<open>None\<close> where the
  library raises. The body of the \<open>try\<close> block either raises or returns.
\<close>

datatype exn = IndexError | DecodeError | ImageError

definition process_data_url_body ::
  "(pystr \<Rightarrow> nat list option) \<Rightarrow> (nat list \<Rightarrow> 'img option) \<Rightarrow> pystr option \<Rightarrow> exn + 'img option" where
  "process_data_url_body b64decode image_open data_url =
     (case data_url of
        None \<Rightarrow> Inr None
      | Some url \<Rightarrow>
          if url \<noteq> [] \<and> prefix (str ''data:image'') url then
            (case str_split_on 44 url of
               before # base64_data # others \<Rightarrow>
                 (case b64decode base64_data of
                    None \<Rightarrow> Inl DecodeError
                  | Some image_data \<Rightarrow>
                      (case image_open image_data of
                         None \<Rightarrow> Inl ImageError
                       | Some img \<Rightarrow> Inr (Some img)))
             | _ \<Rightarrow> Inl IndexError)
          else Inr None)"

text \<open>
  \<open>except Exception\<close> prints the error and the function ends without a \<open>return\<close>: the
  caller gets \<open>None\<close>.
\<close>

definition process_data_url ::
  "(pystr \<Rightarrow> nat list option) \<Rightarrow> (nat list \<Rightarrow> 'img option) \<Rightarrow> pystr option \<Rightarrow> 'img option" where
  "process_data_url b64decode image_open data_url =
     (case process_data_url_body b64decode image_open data_url of
        Inl e \<Rightarrow> None
      | Inr result \<Rightarrow> result)"

section \<open>Notions the properties are stated with\<close>

text \<open>
  A message matches a detail when the inner loop finds a word for it. The example heaps
  hold the checklists of the two worked examples: one item, and two items.
\<close>

definition detail_matches :: "pystr \<Rightarrow> pystr \<Rightarrow> bool" where
  "detail_matches message d = word_loop (str_split (str_lower d)) (str_lower message)"

definition shadows_heap :: heap where
  "shadows_heap =
     (\<lambda>r. \<lparr>detail = str ''Shadows and highlights'', identified = False, item_id = 0\<rparr>)"

definition animal_heap :: heap where
  "animal_heap =
     (\<lambda>r. if r = 0 then \<lparr>detail = str ''Animal type'', identified = False, item_id = 0\<rparr>
          else \<lparr>detail = str ''Animal coloring'', identified = False, item_id = 1\<rparr>)"

text \<open>
  The attempt budget of a page with limit \<open>L\<close>: the count is the number of the child's
  descriptions in the transcript, capped at \<open>L\<close>.
\<close>

definition budget :: "int \<Rightarrow> app_state \<Rightarrow> bool" where
  "budget L st \<longleftrightarrow>
     attempt_limit (st_active_session st) = Some L \<and>
     attempt_count (st_active_session st) =
       Some (min (int (descriptions (st_conversation_history st))) L)"

text \<open>
  A submission the page processes while it stays in its mode: the description is not
  blank, and the page is in fallback mode or the service replies.
\<close>

definition accepted :: "bool \<Rightarrow> pystr \<times> gateway \<times> nat \<Rightarrow> bool" where
  "accepted fallback sub =
     (case sub of (typed, g, rnd) \<Rightarrow>
        str_strip typed \<noteq> [] \<and>
        (fallback \<or> (case g of Chat_replied ai_response new_checklist \<Rightarrow> True | _ \<Rightarrow> False)))"

text \<open>A page in fallback mode just after an image was generated, with 3 attempts.\<close>

definition example_page :: app_state where
  "example_page =
     \<lparr>st_fallback_mode = True, st_message = [], st_checklist = [0, 1],
      st_heap = animal_heap, st_next_ref = 2, st_conversation_history = [],
      st_active_session = \<lparr>attempt_count = Some 0, attempt_limit = Some 3\<rparr>\<rparr>"

text \<open>
  The match that \<open>re\<close> reports at the start of a text, if any; the three groups the
  markup of an item is read as; and the items the decoder makes of a checklist.
\<close>

definition first_match :: "rx list \<Rightarrow> pystr \<Rightarrow> (pystr list \<times> pystr) option" where
  "first_match p s = (case rx_matches p s of [] \<Rightarrow> None | m # others \<Rightarrow> Some m)"

definition groups_of :: "item \<Rightarrow> pystr list" where
  "groups_of it =
     [if identified it then str ''identified'' else str ''not-identified'',
      if identified it then [0x2705] else [0x274C], detail it]"

fun decoded :: "nat \<Rightarrow> item list \<Rightarrow> item list" where
  "decoded i [] = []"
| "decoded i (it # checklist) =
     \<lparr>detail = detail it, identified = True, item_id = i\<rparr> # decoded (Suc i) checklist"

text \<open>The number of capturing groups of a pattern.\<close>

fun groups_in :: "rx list \<Rightarrow> nat" where
  "groups_in [] = 0"
| "groups_in (Group_not c # p) = Suc (groups_in p)"
| "groups_in (other # p) = groups_in p"

section \<open>Properties of the matcher\<close>

lemmas string_defs = str_split_def str_lower_def lower_char_def is_space_def









text \<open>
  What the outer loop does to every dict of the heap: nothing but setting the flag, and
  that only for an unidentified item of the list whose detail the message matches.
\<close>

lemma mark_loop_item:
  "mark_loop message rs h r =
     (h r)\<lparr>identified :=
        identified (h r) \<or> (r \<in> set rs \<and> detail_matches message (detail (h r)))\<rparr>"
proof (induction rs arbitrary: h)
  case Nil
  then show ?case by simp
next
  case (Cons a rs)
  show ?case
  proof (cases "\<not> identified (h a) \<and> detail_matches message (detail (h a))")
    case True
    define h' where "h' = h(a := (h a)\<lparr>identified := True\<rparr>)"
    have step: "mark_loop message (a # rs) h = mark_loop message rs h'"
      using True by (simp add: detail_matches_def h'_def)
    have "mark_loop message rs h' r =
            (h' r)\<lparr>identified := identified (h' r) \<or>
               (r \<in> set rs \<and> detail_matches message (detail (h' r)))\<rparr>"
      by (rule Cons.IH)
    also have "\<dots> = (h r)\<lparr>identified := identified (h r) \<or>
               (r \<in> set (a # rs) \<and> detail_matches message (detail (h r)))\<rparr>"
      using True by (cases "r = a") (auto simp: h'_def)
    finally show ?thesis by (simp only: step)
  next
    case False
    have step: "mark_loop message (a # rs) h = mark_loop message rs h"
      using False by (auto simp: detail_matches_def)
    have "mark_loop message rs h r =
            (h r)\<lparr>identified := identified (h r) \<or>
               (r \<in> set rs \<and> detail_matches message (detail (h r)))\<rparr>"
      by (rule Cons.IH)
    also have "\<dots> = (h r)\<lparr>identified := identified (h r) \<or>
               (r \<in> set (a # rs) \<and> detail_matches message (detail (h r)))\<rparr>"
      using False by (cases "r = a") auto
    finally show ?thesis by (simp only: step)
  qed
qed


text \<open>
  The returned list holds the very dicts of the list passed in, so comparing the two
  lists after the loop never finds a difference.
\<close>

lemma newly_identified_same: "newly_identified h checklist checklist = 0"
  by (simp add: newly_identified_def zip_same_conv_map filter_empty_conv)






text \<open>Sequences of calls: the list stays, and an identified item is never written to.\<close>

lemma run_fst: "fst (run calls h checklist) = checklist"
  by (induction calls arbitrary: h) (auto simp: process_chat_message_def Let_def)

lemma run_keeps: "identified (h r) \<Longrightarrow> snd (run calls h checklist) r = h r"
proof (induction calls arbitrary: h)
  case Nil
  then show ?case by simp
next
  case (Cons c calls)
  obtain rnd message s where c: "c = (rnd, message, s)" by (cases c)
  have "mark_loop message checklist h r = h r"
    using Cons.prems by (simp add: mark_loop_item)
  then show ?case using Cons c
    by (simp add: process_chat_message_def Let_def)
qed

lemma run_append:
  "run (calls @ later) h checklist =
     run later (snd (run calls h checklist)) (fst (run calls h checklist))"
  by (induction calls arbitrary: h checklist) (auto split: prod.splits)

text \<open>
  C4. Along any sequence of calls, each fed what the call before returned, an item that is
  identified in a returned checklist is the same item, still identified, in every
  checklist returned later: a call leaves an identified item alone.
\<close>

theorem identified_stays_identified:
  "k < length checklist \<and> identified (returned (run calls h checklist) ! k) \<longrightarrow>
     length (returned (run (calls @ later) h checklist)) = length checklist \<and>
     returned (run (calls @ later) h checklist) ! k = returned (run calls h checklist) ! k \<and>
     identified (returned (run (calls @ later) h checklist) ! k)"
proof
  assume a: "k < length checklist \<and> identified (returned (run calls h checklist) ! k)"
  let ?h1 = "snd (run calls h checklist)"
  from a have k: "k < length checklist"
    and "identified (returned (run calls h checklist) ! k)"
    by simp_all
  then have id: "identified (?h1 (checklist ! k))"
    by (simp add: returned_def view_def run_fst)
  have "snd (run later ?h1 checklist) (checklist ! k) = ?h1 (checklist ! k)"
    using id by (rule run_keeps)
  then show "length (returned (run (calls @ later) h checklist)) = length checklist \<and>
     returned (run (calls @ later) h checklist) ! k = returned (run calls h checklist) ! k \<and>
     identified (returned (run (calls @ later) h checklist) ! k)"
    using k id by (simp add: returned_def view_def run_append run_fst)
qed

theorem identified_stays_identified_witness:
  "0 < length [0 :: ref] \<and>
   identified (returned (run [(0, str ''nice shadows'', None)] shadows_heap [0]) ! 0) \<and>
   identified (returned (run ([(0, str ''nice shadows'', None)] @
                               [(1, str ''a dog'', None), (2, str ''highlights'', None)])
                           shadows_heap [0]) ! 0)"
proof -
  have pre: "0 < length [0 :: ref] \<and>
      identified (returned (run [(0, str ''nice shadows'', None)] shadows_heap [0]) ! 0)"
    by (simp add: process_chat_message_def Let_def shadows_heap_def returned_def view_def
        string_defs)
  from identified_stays_identified
         [where k = 0 and checklist = "[0]" and calls = "[(0, str ''nice shadows'', None)]"
            and h = shadows_heap
            and later = "[(1, str ''a dog'', None), (2, str ''highlights'', None)]"] pre
  show ?thesis by blast
qed

text \<open>No call answers with the acknowledgment, whatever it marks.\<close>

lemma response_never_acknowledges:
  "\<not> prefix (str ''Great job!'')
       (fst (process_chat_message rnd h message checklist active_session))"
  by (simp add: process_chat_message_def Let_def compose_response_def newly_identified_same)

text \<open>
  C1. A call that newly marks an item does not answer with the acknowledgment: with the
  one-item checklist "Shadows and highlights" and the message "shadows", the item goes
  from unidentified to identified and the response is the completion message.
\<close>

theorem process_chat_message_no_acknowledgment:
  "\<not> identified (shadows_heap 0) \<and>
   (case process_chat_message rnd shadows_heap (str ''shadows'') [0] None of
      (response, updated_checklist, h') \<Rightarrow>
        map identified (view h' updated_checklist) = [True] \<and>
        response = str ''Wonderful! You've identified all the details in this image.'')"
  by (simp add: process_chat_message_def Let_def shadows_heap_def compose_response_def
      newly_identified_def warns_def view_def string_defs)

section \<open>Properties of the response\<close>

lemma compose_response_no_warning:
  "\<not> suffix last_attempt_warning (compose_response rnd h checklist checklist)"
proof -
  let ?un = "map (\<lambda>r. detail (h r)) (filter (\<lambda>r. \<not> identified (h r)) checklist)"
  show ?thesis
  proof (cases "?un = []")
    case True
    then have "compose_response rnd h checklist checklist =
        str ''Wonderful! You've identified all the details in this image.''"
      by (simp add: compose_response_def newly_identified_same)
    moreover have "length (str ''Wonderful! You've identified all the details in this image.'')
        < length last_attempt_warning"
      by (simp add: last_attempt_warning_def)
    ultimately show ?thesis
      using suffix_length_le by fastforce
  next
    case False
    let ?a = "str ''Good try! Can you tell me more about the '' @ str_lower (choice rnd ?un)"
    let ?b = "[10, 10] @ str ''This is your last attempt. After this, we'll move to a new image''"
    have e1: "compose_response rnd h checklist checklist = ?a @ [63]"
      using False by (simp add: compose_response_def newly_identified_same)
    have e2: "last_attempt_warning = ?b @ [46]"
      by (simp add: last_attempt_warning_def)
    have "\<not> suffix (?b @ [46]) (?a @ [63])"
      unfolding snoc_suffix_snoc by simp
    then show ?thesis
      unfolding e1 e2 .
  qed
qed

lemma warns_iff:
  "warns active_session h checklist \<longleftrightarrow>
     (\<exists>s lmt. active_session = Some s \<and> attempt_limit s = Some lmt \<and> lmt \<noteq> 0 \<and>
        (case attempt_count s of None \<Rightarrow> 0 | Some c \<Rightarrow> c) + 1 \<ge> lmt) \<and>
     \<not> list_all identified (view h checklist)"
  by (auto simp: warns_def view_def list_all_iff split: option.splits)

text \<open>
  C8, as the code has it. The response ends with the last-attempt warning exactly when the
  session has an \<open>attempt_limit\<close> other than 0, \<open>attempt_count + 1 >= attempt_limit\<close>
  (a missing count is 0), and some item of the returned checklist is not identified. The
  count may be anything from \<open>attempt_limit - 1\<close> on, the limit itself included.
\<close>

theorem last_attempt_warning_iff:
  "case process_chat_message rnd h message checklist active_session of
     (response, updated_checklist, h') \<Rightarrow>
       (suffix last_attempt_warning response \<longleftrightarrow>
          (\<exists>s lmt. active_session = Some s \<and> attempt_limit s = Some lmt \<and> lmt \<noteq> 0 \<and>
             (case attempt_count s of None \<Rightarrow> 0 | Some c \<Rightarrow> c) + 1 \<ge> lmt) \<and>
          \<not> list_all identified (view h' updated_checklist))"
proof -
  let ?h' = "mark_loop message checklist h"
  let ?base = "compose_response rnd ?h' checklist checklist"
  have res: "process_chat_message rnd h message checklist active_session =
      ((if warns active_session ?h' checklist then ?base @ last_attempt_warning else ?base),
       checklist, ?h')"
    by (simp add: process_chat_message_def Let_def)
  have "suffix last_attempt_warning
          (if warns active_session ?h' checklist then ?base @ last_attempt_warning else ?base)
        \<longleftrightarrow> warns active_session ?h' checklist"
    using compose_response_no_warning [of rnd ?h' checklist]
    by (simp add: suffix_def)
  then show ?thesis
    unfolding res by (simp add: warns_iff)
qed

text \<open>
  With 3 attempts of 3 already counted, a description that matches nothing is answered
  with a hint and the warning, although the count is not \<open>attempt_limit - 1\<close>.
\<close>

theorem last_attempt_warning_counterexample:
  "fst (process_chat_message 0 shadows_heap (str ''a dog'') [0]
          (Some \<lparr>attempt_count = Some 3, attempt_limit = Some 3\<rparr>)) =
     str ''Good try! Can you tell me more about the shadows and highlights?'' @
     last_attempt_warning \<and>
   (3 :: int) \<noteq> 3 - 1"
  by (simp add: process_chat_message_def Let_def shadows_heap_def compose_response_def
      newly_identified_def warns_def choice_def string_defs)

section \<open>Properties of the attempt budget\<close>

lemma descriptions_append:
  "descriptions (history @ [(Child, m), (Teacher, r)]) = Suc (descriptions history)"
  by (simp add: descriptions_def)

lemma record_attempt_budget:
  assumes "attempt_limit s = Some L" "attempt_count s = Some (min (int d) L)"
  shows "attempt_limit (record_attempt s) = Some L \<and>
         attempt_count (record_attempt s) = Some (min (int (Suc d)) L)"
  using assms by (auto simp: record_attempt_def Let_def)

lemma process_fallback_budget:
  "budget L st \<Longrightarrow> budget L (process_fallback rnd st)"
  by (auto simp: process_fallback_def budget_def Let_def descriptions_append
      dest: record_attempt_budget split: prod.splits)

lemma budget_message: "budget L (st\<lparr>st_message := m\<rparr>) = budget L st"
  by (simp add: budget_def)

lemma budget_fallback: "budget L (st\<lparr>st_fallback_mode := b\<rparr>) = budget L st"
  by (simp add: budget_def)

lemma budget_alloc: "budget L (alloc items st) = budget L st"
  by (simp add: budget_def alloc_def Let_def)

lemma app_process_budget:
  "budget L st \<Longrightarrow> budget L (app_process_chat_message g rnd st)"
proof (cases g)
  case No_client
  then show "budget L st \<Longrightarrow> ?thesis"
    by (simp add: app_process_chat_message_def process_fallback_budget)
next
  case Chat_invalid
  then show "budget L st \<Longrightarrow> ?thesis"
    by (simp add: app_process_chat_message_def process_fallback_budget)
next
  case (Chat_raised b)
  then show "budget L st \<Longrightarrow> ?thesis"
    by (simp add: app_process_chat_message_def process_fallback_budget budget_message
        budget_fallback Let_def)
next
  case (Chat_replied x y)
  assume b: "budget L st"
  let ?st1 = "st\<lparr>st_conversation_history :=
                  st_conversation_history st @
                    [(Child, str_strip (st_message st)), (Teacher, x)],
                st_active_session := record_attempt (st_active_session st),
                st_message := []\<rparr>"
  have "budget L ?st1" using b
    by (auto simp: budget_def descriptions_append dest: record_attempt_budget)
  then show ?thesis using b Chat_replied
    by (cases y)
      (simp_all add: app_process_chat_message_def process_fallback_budget Let_def budget_alloc)
qed

lemma submit_all_budget: "budget L st \<Longrightarrow> budget L (submit_all subs st)"
proof (induction subs arbitrary: st)
  case Nil
  then show ?case by simp
next
  case (Cons a subs)
  obtain typed g rnd where a: "a = (typed, g, rnd)" by (cases a)
  show ?case unfolding a submit_all.simps
    by (rule Cons.IH) (simp add: app_process_budget budget_message Cons.prems)
qed

lemma process_fallback_accepted:
  "str_strip (st_message st) \<noteq> [] \<Longrightarrow>
   st_fallback_mode (process_fallback rnd st) = st_fallback_mode st \<and>
   descriptions (st_conversation_history (process_fallback rnd st)) =
     Suc (descriptions (st_conversation_history st))"
  by (simp add: process_fallback_def Let_def descriptions_append split: prod.splits)

lemma step_accepted:
  assumes "accepted (st_fallback_mode st) (typed, g, rnd)"
  shows "st_fallback_mode (app_process_chat_message g rnd (st\<lparr>st_message := typed\<rparr>)) =
           st_fallback_mode st \<and>
         descriptions (st_conversation_history
             (app_process_chat_message g rnd (st\<lparr>st_message := typed\<rparr>))) =
           Suc (descriptions (st_conversation_history st))"
proof (cases "st_fallback_mode st")
  case True
  then show ?thesis using assms
    by (simp add: app_process_chat_message_def accepted_def process_fallback_accepted)
next
  case False
  with assms obtain a c where g: "g = Chat_replied a c" and t: "str_strip typed \<noteq> []"
    by (auto simp: accepted_def split: gateway.splits)
  show ?thesis using False t
    by (cases c)
      (simp_all add: g app_process_chat_message_def Let_def descriptions_append alloc_def)
qed

lemma all_accepted:
  "list_all (accepted (st_fallback_mode st)) subs \<Longrightarrow>
   descriptions (st_conversation_history (submit_all subs st)) =
     descriptions (st_conversation_history st) + length subs"
proof (induction subs arbitrary: st)
  case Nil
  then show ?case by simp
next
  case (Cons a subs)
  obtain typed g rnd where a: "a = (typed, g, rnd)" by (cases a)
  let ?st1 = "app_process_chat_message g rnd (st\<lparr>st_message := typed\<rparr>)"
  from Cons.prems a have acc: "accepted (st_fallback_mode st) (typed, g, rnd)"
    and rest: "list_all (accepted (st_fallback_mode st)) subs" by simp_all
  note s = step_accepted [OF acc]
  from rest s have "list_all (accepted (st_fallback_mode ?st1)) subs" by simp
  then have "descriptions (st_conversation_history (submit_all subs ?st1)) =
     descriptions (st_conversation_history ?st1) + length subs" by (rule Cons.IH)
  then show ?case using s by (simp add: a)
qed

text \<open>
  C5. From a page with an empty transcript, \<open>attempt_count = 0\<close> and
  \<open>attempt_limit = L\<close>, \<open>L >= 1\<close>: after any sequence of submissions the limit is
  unchanged, the count is the number of processed descriptions (those the transcript
  holds) capped at \<open>L\<close>, so it lies between 0 and \<open>L\<close>; and when all \<open>N\<close> submissions
  are processed the count is \<open>min(N, L)\<close>.
\<close>

theorem attempt_saturation:
  "st_conversation_history st = [] \<and> attempt_count (st_active_session st) = Some 0 \<and>
   attempt_limit (st_active_session st) = Some L \<and> 1 \<le> L \<longrightarrow>
     attempt_limit (st_active_session (submit_all subs st)) = Some L \<and>
     attempt_count (st_active_session (submit_all subs st)) =
       Some (min (int (descriptions (st_conversation_history (submit_all subs st)))) L) \<and>
     (\<exists>c. attempt_count (st_active_session (submit_all subs st)) = Some c \<and>
          0 \<le> c \<and> c \<le> L) \<and>
     (list_all (accepted (st_fallback_mode st)) subs \<longrightarrow>
        attempt_count (st_active_session (submit_all subs st)) =
          Some (min (int (length subs)) L))"
proof
  assume a: "st_conversation_history st = [] \<and>
    attempt_count (st_active_session st) = Some 0 \<and>
    attempt_limit (st_active_session st) = Some L \<and> 1 \<le> L"
  then have "budget L st" by (simp add: budget_def descriptions_def)
  then have b: "budget L (submit_all subs st)" by (rule submit_all_budget)
  let ?st' = "submit_all subs st"
  have 1: "attempt_limit (st_active_session ?st') = Some L"
    and 2: "attempt_count (st_active_session ?st') =
       Some (min (int (descriptions (st_conversation_history ?st'))) L)"
    using b by (simp_all add: budget_def)
  have 3: "\<exists>c. attempt_count (st_active_session ?st') = Some c \<and> 0 \<le> c \<and> c \<le> L"
    using 2 a by simp
  have 4: "attempt_count (st_active_session ?st') = Some (min (int (length subs)) L)"
    if "list_all (accepted (st_fallback_mode st)) subs"
    using all_accepted [OF that] 2 a by (simp add: descriptions_def)
  from 1 2 3 4 show "attempt_limit (st_active_session (submit_all subs st)) = Some L \<and>
     attempt_count (st_active_session (submit_all subs st)) =
       Some (min (int (descriptions (st_conversation_history (submit_all subs st)))) L) \<and>
     (\<exists>c. attempt_count (st_active_session (submit_all subs st)) = Some c \<and>
          0 \<le> c \<and> c \<le> L) \<and>
     (list_all (accepted (st_fallback_mode st)) subs \<longrightarrow>
        attempt_count (st_active_session (submit_all subs st)) =
          Some (min (int (length subs)) L))"
    by blast
qed

theorem attempt_saturation_witness:
  "st_conversation_history example_page = [] \<and>
   attempt_count (st_active_session example_page) = Some 0 \<and>
   attempt_limit (st_active_session example_page) = Some 3 \<and> (1 :: int) \<le> 3 \<and>
   list_all (accepted (st_fallback_mode example_page))
     [(str ''a dog'', No_client, 0), (str ''it is red'', No_client, 1),
      (str ''it runs'', No_client, 2), (str ''big'', No_client, 3)] \<and>
   attempt_count (st_active_session (submit_all
     [(str ''a dog'', No_client, 0), (str ''it is red'', No_client, 1),
      (str ''it runs'', No_client, 2), (str ''big'', No_client, 3)] example_page)) = Some 3"
proof -
  have pre: "st_conversation_history example_page = [] \<and>
     attempt_count (st_active_session example_page) = Some 0 \<and>
     attempt_limit (st_active_session example_page) = Some 3 \<and> (1 :: int) \<le> 3"
    by (simp add: example_page_def)
  have acc: "list_all (accepted (st_fallback_mode example_page))
     [(str ''a dog'', No_client, 0), (str ''it is red'', No_client, 1),
      (str ''it runs'', No_client, 2), (str ''big'', No_client, 3)]"
    by (simp add: example_page_def accepted_def str_strip_def is_space_def)
  let ?subs = "[(str ''a dog'', No_client, 0), (str ''it is red'', No_client, 1),
      (str ''it runs'', No_client, 2), (str ''big'', No_client, 3 :: nat)]"
  have m: "min (int (length ?subs)) 3 = 3" by simp
  from attempt_saturation [where st = example_page and L = 3 and subs = ?subs] pre acc
  have "attempt_count (st_active_session (submit_all ?subs example_page)) =
      Some (min (int (length ?subs)) 3)"
    by blast
  then have "attempt_count (st_active_session (submit_all ?subs example_page)) = Some 3"
    unfolding m .
  with pre acc show ?thesis by blast
qed

text \<open>
  C6. The page warns that the maximum of attempts is reached exactly when
  \<open>attempt_count >= attempt_limit\<close> and some item is not identified: with 3 of 3 attempts
  and an unidentified item it warns, and with every item identified it never does.
\<close>

theorem max_attempts_warning_iff:
  "(max_attempts_warning s checklist \<longleftrightarrow>
      (case attempt_count s of None \<Rightarrow> 0 | Some c \<Rightarrow> c) \<ge>
      (case attempt_limit s of None \<Rightarrow> 3 | Some l \<Rightarrow> l) \<and>
      \<not> list_all identified checklist) \<and>
   (\<not> list_all identified checklist \<longrightarrow>
      max_attempts_warning \<lparr>attempt_count = Some 3, attempt_limit = Some 3\<rparr> checklist) \<and>
   (list_all identified checklist \<longrightarrow> \<not> max_attempts_warning s checklist)"
  by (simp add: max_attempts_warning_def attempt_counter_def Let_def)

theorem max_attempts_warning_iff_witness:
  "\<not> list_all identified (view animal_heap [0, 1]) \<and>
   max_attempts_warning \<lparr>attempt_count = Some 3, attempt_limit = Some 3\<rparr>
     (view animal_heap [0, 1]) \<and>
   list_all identified [\<lparr>detail = str ''Color'', identified = True, item_id = 0\<rparr>] \<and>
   \<not> max_attempts_warning \<lparr>attempt_count = Some 7, attempt_limit = Some 3\<rparr>
     [\<lparr>detail = str ''Color'', identified = True, item_id = 0\<rparr>]"
proof -
  have a: "\<not> list_all identified (view animal_heap [0, 1])"
    by (simp add: view_def animal_heap_def)
  have b: "list_all identified [\<lparr>detail = str ''Color'', identified = True, item_id = 0\<rparr>]"
    by simp
  from max_attempts_warning_iff
         [where s = "\<lparr>attempt_count = Some 3, attempt_limit = Some 3\<rparr>"
            and checklist = "view animal_heap [0, 1]"]
       max_attempts_warning_iff
         [where s = "\<lparr>attempt_count = Some 7, attempt_limit = Some 3\<rparr>"
            and checklist = "[\<lparr>detail = str ''Color'', identified = True, item_id = 0\<rparr>]"]
       a b
  show ?thesis by blast
qed

section \<open>Properties of the progress text\<close>




section \<open>Properties of the placeholder checklist\<close>

text \<open>One selection step keeps the elements of the pool: the one taken and those left.\<close>

lemma pool_step:
  assumes "j < length pool"
  shows "add_mset (pool ! j) (mset (butlast (pool[j := last pool]))) = mset pool"
proof -
  from assms have "pool \<noteq> []" by auto
  then obtain xs l where pool: "pool = xs @ [l]"
    by (metis rev_exhaust)
  show ?thesis
  proof (cases "j < length xs")
    case True
    then show ?thesis
      by (simp add: pool list_update_append nth_append mset_update)
  next
    case False
    with assms pool have "j = length xs" by simp
    then show ?thesis by (simp add: pool)
  qed
qed

lemma sample_pool_length: "length (sample_pool draws pool k) = k"
  by (induction k arbitrary: draws pool) (simp_all add: Let_def)

lemma sample_pool_mset:
  "k \<le> length pool \<Longrightarrow> mset (sample_pool draws pool k) \<subseteq># mset pool"
proof (induction k arbitrary: draws pool)
  case 0
  then show ?case by simp
next
  case (Suc k)
  let ?j = "draws 0 mod length pool"
  let ?pool' = "butlast (pool[?j := last pool])"
  from Suc.prems have "0 < length pool" by (cases pool) simp_all
  then have j: "?j < length pool" by simp
  from Suc.prems have "k \<le> length ?pool'" by simp
  then have "mset (sample_pool (\<lambda>i. draws (Suc i)) ?pool' k) \<subseteq># mset ?pool'"
    by (rule Suc.IH)
  then have "add_mset (pool ! ?j) (mset (sample_pool (\<lambda>i. draws (Suc i)) ?pool' k))
      \<subseteq># add_mset (pool ! ?j) (mset ?pool')"
    by simp
  then show ?case
    by (simp add: Let_def pool_step [OF j])
qed

lemma count_le_1_distinct: "(\<And>a. count (mset xs) a \<le> 1) \<Longrightarrow> distinct xs"
proof (induction xs)
  case Nil
  then show ?case by simp
next
  case (Cons x xs)
  have "count (mset xs) a \<le> 1" for a
  proof -
    have "count (mset xs) a \<le> count (mset (x # xs)) a" by simp
    also have "\<dots> \<le> 1" by (rule Cons.prems)
    finally show ?thesis .
  qed
  then have "distinct xs" by (rule Cons.IH)
  moreover have "count (mset xs) x = 0"
    using Cons.prems [of x] by simp
  then have "x \<notin> set xs" by simp
  ultimately show ?case by simp
qed

lemma distinct_of_subset:
  assumes "mset xs \<subseteq># mset ys" "distinct ys"
  shows "distinct xs"
proof (rule count_le_1_distinct)
  fix a
  have "count (mset xs) a \<le> count (mset ys) a"
    using assms(1) by (rule mset_subset_eq_count)
  also have "\<dots> \<le> 1"
    using assms(2) by (simp add: distinct_count_atmost_1)
  finally show "count (mset xs) a \<le> 1" .
qed

lemma sample_pool_distinct:
  "k \<le> length pool \<Longrightarrow> distinct pool \<Longrightarrow> distinct (sample_pool draws pool k)"
  using sample_pool_mset [of k pool draws] by (rule distinct_of_subset)

lemma sample_pool_set:
  "k \<le> length pool \<Longrightarrow> set (sample_pool draws pool k) \<subseteq> set pool"
  using sample_pool_mset [of k pool draws] set_mset_mono by fastforce

lemma checklist_items_detail: "map detail (checklist_items i ds) = ds"
  by (induction ds arbitrary: i) simp_all

lemma checklist_items_id: "map item_id (checklist_items i ds) = [i ..< i + length ds]"
  by (induction ds arbitrary: i) (simp_all add: upt_rec)

lemma checklist_items_unidentified: "list_all (\<lambda>it. \<not> identified it) (checklist_items i ds)"
  by (induction ds arbitrary: i) simp_all

lemma checklist_items_length: "length (checklist_items i ds) = length ds"
  by (induction ds arbitrary: i) simp_all

text \<open>The details of a topic are none, or the five of one of the four buckets.\<close>

lemma pool_cases:
  "topic_details topic \<in> {[],
     [str ''Animal type'', str ''Animal posture'', str ''Animal coloring'',
      str ''Habitat elements'', str ''Animal features''],
     [str ''Person's expression'', str ''Clothing items'', str ''Posture or pose'',
      str ''Hair style'', str ''Action being performed''],
     [str ''Type of landscape'', str ''Plant life'', str ''Weather conditions'',
      str ''Time of day'', str ''Natural features''],
     [str ''Object shape'', str ''Object purpose'', str ''Object material'',
      str ''Object size'', str ''Object color'']}"
  by (simp add: topic_details_def Let_def)

lemma pool_distinct:
  "distinct (topic_details topic @ generic_details) \<and>
   (length (topic_details topic @ generic_details) = 7 \<or>
    length (topic_details topic @ generic_details) = 12)"
  using pool_cases [of topic]
  by (elim insertE emptyE) (simp_all add: generic_details_def)

text \<open>
  C9. For every topic and every sequence of draws the function returns a checklist: of 5
  to 8 items, with pairwise different details, all taken from the details of the topic
  and the generic ones, numbered 0, 1, ... in the order selected, none identified.
\<close>

theorem generate_placeholder_checklist_shape:
  "\<exists>cl. generate_placeholder_checklist draws topic = Some cl \<and>
      5 \<le> length cl \<and> length cl \<le> 8 \<and>
      distinct (map detail cl) \<and>
      set (map detail cl) \<subseteq> set (topic_details topic @ generic_details) \<and>
      map item_id cl = [0 ..< length cl] \<and>
      list_all (\<lambda>it. \<not> identified it) cl"
proof -
  let ?all = "topic_details topic @ generic_details"
  let ?n = "min (length ?all) (randint 5 8 (draws 0))"
  let ?sel = "sample_pool (\<lambda>i. draws (Suc i)) ?all ?n"
  have r: "5 \<le> randint 5 8 (draws 0) \<and> randint 5 8 (draws 0) \<le> 8"
    by (simp add: randint_def)
  have len: "length ?all = 7 \<or> length ?all = 12" and dis: "distinct ?all"
    using pool_distinct [of topic] by simp_all
  have n: "?n \<le> length ?all" by simp
  have gen: "generate_placeholder_checklist draws topic = Some (checklist_items 0 ?sel)"
    unfolding generate_placeholder_checklist_def Let_def random_sample_def
    using n by simp
  have n58: "5 \<le> ?n \<and> ?n \<le> 8" using r len by auto
  let ?cl = "checklist_items 0 ?sel"
  have d: "map detail ?cl = ?sel" by (rule checklist_items_detail)
  have l: "length ?cl = ?n" by (simp only: checklist_items_length sample_pool_length)
  show ?thesis
  proof (intro exI conjI)
    show "generate_placeholder_checklist draws topic = Some ?cl" by (rule gen)
    show "5 \<le> length ?cl" using n58 by (simp only: l)
    show "length ?cl \<le> 8" using n58 by (simp only: l)
    show "distinct (map detail ?cl)"
      unfolding d using n dis by (rule sample_pool_distinct)
    show "set (map detail ?cl) \<subseteq> set ?all"
      unfolding d using n by (rule sample_pool_set)
    show "map item_id ?cl = [0 ..< length ?cl]"
      using checklist_items_id [of 0 ?sel] by (simp only: checklist_items_length add_0)
    show "list_all (\<lambda>it. \<not> identified it) ?cl"
      by (rule checklist_items_unidentified)
  qed
qed

section \<open>Properties of the data URL\<close>

lemma split_on_no_sep: "sep \<notin> set s \<Longrightarrow> str_split_on sep s = [s]"
  by (induction s) auto

lemma split_on_first:
  "sep \<notin> set p \<Longrightarrow> str_split_on sep (p @ sep # q) = p # str_split_on sep q"
proof (induction p)
  case Nil
  then show ?case by (cases "str_split_on sep q") (auto split: list.splits)
next
  case (Cons a p)
  then show ?case by simp
qed

text \<open>
  C10. The function returns for every input, whatever the two library functions do:
  \<open>None\<close> for \<open>None\<close>, for the empty string and for a string that does not start with
  "data:image"; \<open>None\<close> for a data URL without a comma; and for a data URL with one
  comma the image of the decoded payload, or \<open>None\<close> when the payload does not decode
  or its bytes are no image.
\<close>

theorem process_data_url_result:
  "process_data_url b64decode image_open None = None \<and>
   process_data_url b64decode image_open (Some []) = None \<and>
   (\<not> prefix (str ''data:image'') url \<longrightarrow>
      process_data_url b64decode image_open (Some url) = None) \<and>
   (prefix (str ''data:image'') url \<and> 44 \<notin> set url \<longrightarrow>
      process_data_url b64decode image_open (Some url) = None) \<and>
   (prefix (str ''data:image'') header \<and> 44 \<notin> set header \<and> 44 \<notin> set payload \<longrightarrow>
      process_data_url b64decode image_open (Some (header @ [44] @ payload)) =
        (case b64decode payload of
           None \<Rightarrow> None
         | Some image_data \<Rightarrow> image_open image_data))"
  by (auto simp: process_data_url_def process_data_url_body_def split_on_first split_on_no_sep
      split: option.splits list.splits)

theorem process_data_url_result_witness:
  "\<not> prefix (str ''data:image'') (str ''https://example.org/cat.png'') \<and>
   process_data_url (\<lambda>s. if s = str ''aGk='' then Some [104, 105] else None)
     (\<lambda>bytes. Some (length bytes)) (Some (str ''https://example.org/cat.png'')) = None \<and>
   prefix (str ''data:image'') (str ''data:image/png;base64'') \<and>
   44 \<notin> set (str ''data:image/png;base64'') \<and> 44 \<notin> set (str ''aGk='') \<and>
   process_data_url (\<lambda>s. if s = str ''aGk='' then Some [104, 105] else None)
     (\<lambda>bytes. Some (length bytes)) (Some (str ''data:image/png;base64'' @ [44] @ str ''aGk=''))
     = Some 2 \<and>
   process_data_url (\<lambda>s. if s = str ''aGk='' then Some [104, 105] else None)
     (\<lambda>bytes. Some (length bytes)) (Some (str ''data:image/png;base64'')) = None"
proof -
  let ?b = "\<lambda>s. if s = str ''aGk='' then Some [104, 105 :: nat] else None"
  let ?i = "\<lambda>bytes :: nat list. Some (length bytes)"
  have a: "\<not> prefix (str ''data:image'') (str ''https://example.org/cat.png'')"
    by simp
  have b: "prefix (str ''data:image'') (str ''data:image/png;base64'') \<and>
      44 \<notin> set (str ''data:image/png;base64'') \<and> 44 \<notin> set (str ''aGk='')"
    by simp
  have c: "(case ?b (str ''aGk='') of None \<Rightarrow> None | Some image_data \<Rightarrow> ?i image_data) = Some 2"
    by simp
  from process_data_url_result
         [where ?b64decode = ?b and image_open = ?i
            and url = "str ''https://example.org/cat.png''"
            and header = "str ''data:image/png;base64''" and payload = "str ''aGk=''"]
       process_data_url_result
         [where ?b64decode = ?b and image_open = ?i
            and url = "str ''data:image/png;base64''"
            and header = "str ''data:image/png;base64''" and payload = "str ''aGk=''"]
       a b c
  show ?thesis by (simp only: simp_thms)
qed

section \<open>Properties of the checklist markup\<close>

text \<open>
  A pattern that starts with a literal character can only match where that character
  stands, so the search moves over every other character.
\<close>

lemma findall_skip:
  "c \<noteq> a \<Longrightarrow> findall (Lit (a # l) # p) (c # s) = findall (Lit (a # l) # p) s"
  by (subst findall.simps) simp

lemma findall_hit:
  "findall (Lit (a # l) # p) (a # s) =
     (case rx_matches (Lit (a # l) # p) (a # s) of
        [] \<Rightarrow> findall (Lit (a # l) # p) s
      | (groups, rest) # others \<Rightarrow>
          if length rest < Suc (length s) then groups # findall (Lit (a # l) # p) rest
          else groups # findall (Lit (a # l) # p) s)"
  by (subst findall.simps) (simp split: list.splits)

lemma findall_Nil: "findall (Lit (a # l) # p) [] = []"
  by (subst findall.simps) simp

lemma first_match_Nil: "first_match [] s = Some ([], s)"
  by (simp add: first_match_def)

lemma first_match_Lit: "first_match (Lit l # p) (l @ s) = first_match p s"
  by (simp add: first_match_def)

lemma first_match_Spaces:
  "\<not> is_space c \<Longrightarrow> first_match (Spaces # p) (c # s) = first_match p (c # s)"
  by (simp add: first_match_def)

text \<open>
  A group of characters other than \<open>c\<close> takes all of them up to the next \<open>c\<close> when the
  rest of the pattern matches from there: that is the first alternative tried.
\<close>

lemma first_match_Group:
  assumes "d \<noteq> []" "c \<notin> set d" "first_match p (c # s) = Some (gs, r)"
  shows "first_match (Group_not c # p) (d @ c # s) = Some (d # gs, r)"
proof -
  define F where "F = (\<lambda>n. map (\<lambda>(groups, rest). (take n (d @ c # s) # groups, rest))
                          (rx_matches p (drop n (d @ c # s))))"
  have tw: "takeWhile (\<lambda>x. x \<noteq> c) (d @ c # s) = d"
    using assms(2) by (induction d) auto
  from assms(1) have "Suc 0 \<le> length d" by (cases d) simp_all
  then have up: "rev [1 ..< Suc (length d)] = length d # rev [1 ..< length d]"
    by simp
  from assms(3) obtain others where m: "rx_matches p (c # s) = (gs, r) # others"
    by (auto simp: first_match_def split: list.splits)
  have "rx_matches (Group_not c # p) (d @ c # s) =
      concat (map F (rev [1 ..< Suc (length (takeWhile (\<lambda>x. x \<noteq> c) (d @ c # s)))]))"
    unfolding F_def by (simp only: rx_matches.simps)
  also have "\<dots> = F (length d) @ concat (map F (rev [1 ..< length d]))"
    by (simp only: tw up list.map concat.simps)
  also have "F (length d) = (d # gs, r) # map (\<lambda>(groups, rest). (d # groups, rest)) others"
    by (simp add: F_def m)
  finally show ?thesis
    by (simp add: first_match_def)
qed

lemma findall_first_match:
  "first_match p s = Some (groups, rest) \<Longrightarrow> length rest < length s \<Longrightarrow>
   findall p s = groups # findall p rest"
  by (subst findall.simps) (auto simp: first_match_def split: list.splits)

text \<open>The pattern matches the markup of one item, whatever follows it.\<close>

lemma first_match_item:
  assumes "detail it \<noteq> []" "60 \<notin> set (detail it)"
  shows "first_match pattern (html_item it @ s) = Some (groups_of it, s)"
proof -
  let ?css = "if identified it then str ''identified'' else str ''not-identified''"
  let ?mark = "if identified it then [0x2705] else [0x274C :: nat]"
  let ?p12 = "[Spaces, Lit (str ''</div>'')]"
  let ?p10 = "Group_not 60 # Lit (str ''</span>'') # ?p12"
  let ?p8 = "Spaces # Lit (str ''<span>'') # ?p10"
  let ?p6 = "Group_not 60 # Lit (str ''</span>'') # ?p8"
  let ?p4 = \<open>Spaces # Lit (str ''<span class="checkmark">'') # ?p6\<close>
  let ?p2 = \<open>Group_not 34 # Lit (str ''">'') # ?p4\<close>
  let ?s12 = "str ''</div>'' @ s"
  let ?s10 = "detail it @ 60 # str ''/span>'' @ ?s12"
  let ?s8 = "str ''<span>'' @ ?s10"
  let ?s6 = "?mark @ 60 # str ''/span>'' @ ?s8"
  let ?s4 = \<open>str ''<span class="checkmark">'' @ ?s6\<close>
  let ?s2 = \<open>?css @ 34 # str ''>'' @ ?s4\<close>
  have 12: "first_match ?p12 ?s12 = Some ([], s)"
    by (simp add: first_match_Spaces is_space_def
        first_match_Lit [where l = "str ''</div>''", simplified] first_match_Nil)
  have "first_match (Lit (str ''</span>'') # ?p12) (str ''</span>'' @ ?s12) = Some ([], s)"
    by (simp only: first_match_Lit 12)
  then have 11: "first_match (Lit (str ''</span>'') # ?p12) (60 # str ''/span>'' @ ?s12)
      = Some ([], s)"
    by simp
  have 10: "first_match ?p10 ?s10 = Some ([detail it], s)"
    using assms 11 by (rule first_match_Group [where gs = "[]"])
  have 8: "first_match ?p8 ?s8 = Some ([detail it], s)"
    using 10 by (simp add: first_match_Spaces is_space_def
        first_match_Lit [where l = "str ''<span>''", simplified])
  have "first_match (Lit (str ''</span>'') # ?p8) (str ''</span>'' @ ?s8) = Some ([detail it], s)"
    by (simp only: first_match_Lit 8)
  then have 7: "first_match (Lit (str ''</span>'') # ?p8) (60 # str ''/span>'' @ ?s8)
      = Some ([detail it], s)"
    by simp
  have 6: "first_match ?p6 ?s6 = Some ([?mark, detail it], s)"
    using _ _ 7 by (rule first_match_Group) simp_all
  have 4: "first_match ?p4 ?s4 = Some ([?mark, detail it], s)"
    using 6 by (simp add: first_match_Spaces is_space_def
        first_match_Lit [where l = \<open>str ''<span class="checkmark">''\<close>, simplified])
  have \<open>first_match (Lit (str ''">'') # ?p4) (str ''">'' @ ?s4) = Some ([?mark, detail it], s)\<close>
    by (simp only: first_match_Lit 4)
  then have 3: \<open>first_match (Lit (str ''">'') # ?p4) (34 # str ''>'' @ ?s4)
      = Some ([?mark, detail it], s)\<close>
    by simp
  have 2: "first_match ?p2 ?s2 = Some ([?css, ?mark, detail it], s)"
    using _ _ 3 by (rule first_match_Group) simp_all
  have \<open>first_match (Lit (str ''<div class="checklist-item '') # ?p2)
          (str ''<div class="checklist-item '' @ ?s2) = Some ([?css, ?mark, detail it], s)\<close>
    by (simp only: first_match_Lit 2)
  moreover have \<open>html_item it @ s = str ''<div class="checklist-item '' @ ?s2\<close>
    by (simp add: html_item_def)
  ultimately show ?thesis
    by (simp only: pattern_def groups_of_def)
qed

lemma findall_head: "findall pattern (html_head @ s) = findall pattern s"
  by (simp add: html_head_def pattern_def findall_skip findall_hit)

lemma findall_tail: "findall pattern (str ''</div>'') = []"
  by (simp add: pattern_def findall_skip findall_hit findall_Nil)

lemma html_item_length: "length s < length (html_item it @ s)"
  by (simp add: html_item_def)

lemma findall_items:
  assumes "list_all (\<lambda>it. detail it \<noteq> [] \<and> 60 \<notin> set (detail it)) checklist"
  shows "findall pattern (concat (map html_item checklist) @ s) =
           map groups_of checklist @ findall pattern s"
  using assms
proof (induction checklist)
  case Nil
  then show ?case by simp
next
  case (Cons it checklist)
  let ?rest = "concat (map html_item checklist) @ s"
  from Cons.prems have ok: "detail it \<noteq> []" "60 \<notin> set (detail it)"
    and rest: "list_all (\<lambda>it. detail it \<noteq> [] \<and> 60 \<notin> set (detail it)) checklist"
    by simp_all
  have "findall pattern (html_item it @ ?rest) = groups_of it # findall pattern ?rest"
    using first_match_item [OF ok] html_item_length by (rule findall_first_match)
  then show ?case using Cons.IH [OF rest] by simp
qed

lemma items_of_groups: "items_of i (map groups_of checklist) = decoded i checklist"
  by (induction checklist arbitrary: i) (simp_all add: groups_of_def)

text \<open>
  What decoding the markup of a checklist gives, when every detail is a text without
  \<open><\<close> that is not empty: the items in order, with their texts, numbered from 0, and
  all of them identified.
\<close>

lemma extract_create_html_checklist:
  assumes "list_all (\<lambda>it. detail it \<noteq> [] \<and> 60 \<notin> set (detail it)) checklist"
  shows "extract_checklist_from_html (create_html_checklist checklist) = decoded 0 checklist"
proof -
  have "create_html_checklist checklist \<noteq> []"
    by (simp add: create_html_checklist_def)
  moreover have "findall pattern (create_html_checklist checklist) = map groups_of checklist"
    unfolding create_html_checklist_def
    by (simp only: findall_head findall_items [OF assms] findall_tail append_Nil2)
  ultimately show ?thesis
    by (simp add: extract_checklist_from_html_def items_of_groups)
qed

text \<open>
  Every match of the pattern has its three groups, so the decoder's unpacking
  \<open>css_class, checkmark, detail = match\<close> never fails.
\<close>

lemma rx_matches_groups:
  "(gs, r) \<in> set (rx_matches p s) \<Longrightarrow> length gs = groups_in p"
proof (induction p arbitrary: s gs r)
  case Nil
  then show ?case by simp
next
  case (Cons x p)
  show ?case
  proof (cases x)
    case (Lit l)
    then show ?thesis using Cons by (auto split: if_splits)
  next
    case (Group_not c)
    with Cons.prems obtain n gs' where "gs = take n s # gs'"
      and "(gs', r) \<in> set (rx_matches p (drop n s))"
      by auto
    then show ?thesis using Cons.IH Group_not by auto
  next
    case Spaces
    with Cons.prems obtain n where "(gs, r) \<in> set (rx_matches p (drop n s))"
      by auto
    then show ?thesis using Cons.IH Spaces by auto
  qed
qed

lemma rx_matches_groups_hd:
  "rx_matches p s = (gs, r) # others \<Longrightarrow> length gs = groups_in p"
  using rx_matches_groups [of gs r p s] by simp

lemma findall_groups: "m \<in> set (findall p s) \<Longrightarrow> length m = groups_in p"
proof (induction p s rule: findall.induct)
  case (1 p s)
  from "1.prems" have m: "m \<in> set
     (case rx_matches p s of
        [] \<Rightarrow> (case s of [] \<Rightarrow> [] | c # cs \<Rightarrow> findall p cs)
      | (groups, rest) # others \<Rightarrow>
          if length rest < length s then groups # findall p rest
          else (case s of [] \<Rightarrow> [groups] | c # cs \<Rightarrow> groups # findall p cs))"
    by (subst (asm) findall.simps)
  show ?case
  proof (cases "rx_matches p s")
    case Nil
    show ?thesis
    proof (cases s)
      case empty: Nil
      with Nil m show ?thesis by simp
    next
      case (Cons c cs)
      with Nil m have "m \<in> set (findall p cs)" by simp
      with Nil Cons show ?thesis by (rule "1.IH"(1))
    qed
  next
    case (Cons a others)
    obtain gs r where a: "a = (gs, r)" by (cases a)
    have g: "length gs = groups_in p"
      using Cons a by (intro rx_matches_groups_hd [of p s gs r others]) simp
    show ?thesis
    proof (cases "length r < length s")
      case True
      with Cons a m have "m = gs \<or> m \<in> set (findall p r)"
        by simp
      then show ?thesis
        using g "1.IH"(2) [OF Cons a [symmetric] True] by blast
    next
      case False
      show ?thesis
      proof (cases s)
        case empty: Nil
        with Cons a False m have "m = gs" by simp
        with g show ?thesis by simp
      next
        case (Cons c cs)
        with \<open>rx_matches p s = a # others\<close> a False m
        have "m = gs \<or> m \<in> set (findall p cs)" by simp
        then show ?thesis
          using g "1.IH"(3) [OF \<open>rx_matches p s = a # others\<close> a [symmetric] False Cons]
          by blast
      qed
    qed
  qed
qed

lemma pattern_triples:
  "m \<in> set (findall pattern s) \<Longrightarrow>
   \<exists>css_class checkmark detl. m = [css_class, checkmark, detl]"
proof -
  assume "m \<in> set (findall pattern s)"
  then have "length m = groups_in pattern" by (rule findall_groups)
  then have "length m = 3" by (simp add: pattern_def)
  then show ?thesis
    by (auto simp: length_Suc_conv numeral_3_eq_3)
qed

text \<open>An item whose detail is the empty text is not decoded at all.\<close>

lemma extract_drops_empty_detail:
  "extract_checklist_from_html (create_html_checklist
     [\<lparr>detail = [], identified = True, item_id = 0\<rparr>]) = []"
  by (simp add: extract_checklist_from_html_def create_html_checklist_def html_head_def
      html_item_def findall_skip findall_hit findall_Nil is_space_def pattern_def)

text \<open>
  C2. The markup of an item that is not identified carries the class "not-identified",
  and the decoder reads it as identified: the word "identified" occurs in
  "not-identified". Text, order and numbering come back as they were.
\<close>

theorem extract_reads_not_identified_as_identified:
  "extract_checklist_from_html (create_html_checklist
     [\<lparr>detail = str ''Color'', identified = False, item_id = 0\<rparr>,
      \<lparr>detail = str ''Shape'', identified = True, item_id = 1\<rparr>]) =
     [\<lparr>detail = str ''Color'', identified = True, item_id = 0\<rparr>,
      \<lparr>detail = str ''Shape'', identified = True, item_id = 1\<rparr>]"
  by (simp add: extract_checklist_from_html_def create_html_checklist_def html_head_def
      html_item_def findall_skip findall_hit findall_Nil is_space_def pattern_def)

end
